theory Spec2Isabelle
  imports Complex_Main "HOL-Library.Log_Nat"
begin

section \<open>Time: config.py and util.py\<close>

text \<open>
  A datetime is the number of microseconds since \<open>START_DATE\<close> (2022-01-18 00:00:00, a
  midnight), the resolution \<open>round_down_dt\<close> works at; a timedelta is a number of
  microseconds. Capacities, job sizes and the clock of the event loop are Python floats:
  reals, on which the arithmetic of job.py, util.py and the two processes rounds every
  result to a double (section Floats). The columns of the capacity table are added and
  subtracted by pandas inside the resource manager; there the arithmetic is kept exact.
\<close>

type_synonym datetime = int
type_synonym timedelta = int

definition TIME_STEP :: int where
  "TIME_STEP = 10"

definition timedelta :: "int \<Rightarrow> int \<Rightarrow> int \<Rightarrow> timedelta" where
  \<comment> \<open>\<open>timedelta(minutes=m, seconds=s, microseconds=us)\<close>\<close>
  "timedelta m s us = m * 60000000 + s * 1000000 + us"

definition days :: "int \<Rightarrow> timedelta" where
  \<comment> \<open>\<open>timedelta(days=d)\<close>\<close>
  "days d = d * 86400000000"

definition minute :: "datetime \<Rightarrow> int" where
  "minute dt = (dt div 60000000) mod 60"

definition second :: "datetime \<Rightarrow> int" where
  "second dt = (dt div 1000000) mod 60"

definition microsecond :: "datetime \<Rightarrow> int" where
  "microsecond dt = dt mod 1000000"

definition round_down_dt :: "datetime \<Rightarrow> datetime" where
  "round_down_dt dt = dt - timedelta (minute dt mod TIME_STEP) (second dt) (microsecond dt)"

definition round_up_dt :: "datetime \<Rightarrow> datetime" where
  "round_up_dt dt = round_down_dt dt + timedelta TIME_STEP 0 0"

section \<open>Errors\<close>

datatype error = AssertionError | KeyError | ValueError | TypeError | IndexError | AttributeError
  | OverflowError

section \<open>Floats\<close>

text \<open>
  A Python float is an IEEE 754 double. \<open>fl x\<close> is the double nearest to the real \<open>x\<close>,
  ties to the even significand: \<open>x\<close> is rounded to a multiple of \<open>ulp x\<close>, the distance
  between the doubles around \<open>x\<close> (53 significant bits, the exponent not below \<open>-1022\<close>,
  so that small values are rounded on the grid of the subnormal numbers). A float operation
  is the exact operation followed by \<open>fl\<close>. Overflow to infinity is not modelled.
\<close>

definition round_half_even :: "real \<Rightarrow> int" where
  "round_half_even x =
     (let f = \<lfloor>x\<rfloor>; d = x - of_int f
      in if d < 1 / 2 then f
         else if 1 / 2 < d then f + 1
         else if even f then f else f + 1)"

definition float_exponent :: "real \<Rightarrow> int" where
  \<comment> \<open>the \<open>e\<close> with \<open>2 ^ e \<le> \<bar>x\<bar> < 2 ^ (e + 1)\<close>\<close>
  "float_exponent x =
     (if 1 \<le> \<bar>x\<bar> then bitlen \<lfloor>\<bar>x\<bar>\<rfloor> - 1 else - bitlen (\<lceil>1 / \<bar>x\<bar>\<rceil> - 1))"

definition ulp :: "real \<Rightarrow> real" where
  "ulp x = 2 powi (max (float_exponent x) (- 1022) - 52)"

definition fl :: "real \<Rightarrow> real" where
  "fl x = (if x = 0 then 0 else real_of_int (round_half_even (x / ulp x)) * ulp x)"

definition trunc :: "real \<Rightarrow> int" where
  \<comment> \<open>the conversion of a double to an integer: towards zero\<close>
  "trunc x = (if 0 \<le> x then \<lfloor>x\<rfloor> else \<lceil>x\<rceil>)"

definition float_sum :: "real list \<Rightarrow> real" where
  \<comment> \<open>the built-in \<open>sum\<close> over floats: from 0, one double addition for each item, from
      left to right\<close>
  "float_sum xs = foldl (\<lambda>acc x. fl (acc + x)) 0 xs"

section \<open>Simulation time: util.py\<close>

text \<open>
  The clock of a simpy environment is a float that counts time steps since \<open>START_DATE\<close>.
  \<open>total_seconds()\<close> is the duration in seconds as a double. \<open>timedelta(minutes=m)\<close> with a
  float \<open>m\<close> takes the whole minutes exactly, multiplies the fraction by the microseconds
  of a minute in doubles, and rounds the sum to the nearest microsecond, ties to the even
  one. pandas refuses a timestamp outside its range (the years 1677 to 2262); the model
  draws that bound at \<open>2 ^ 23\<close> steps, about 159 years, on either side of \<open>START_DATE\<close>,
  inside which a microsecond is more than the spacing of the doubles around the clock.
\<close>

definition timedelta_to_simtimedelta :: "timedelta \<Rightarrow> real" where
  "timedelta_to_simtimedelta td =
     fl (fl (real_of_int td / 1000000) / real_of_int (60 * TIME_STEP))"

definition simtime_to_datetime :: "real \<Rightarrow> error + datetime" where
  "simtime_to_datetime st =
     (let minutes = fl (real_of_int TIME_STEP * st);
          whole = trunc minutes;
          us = round_half_even (real_of_int (whole * 60000000)
                                + fl (60000000 * (minutes - real_of_int whole)))
      in if \<bar>st\<bar> < 2 ^ 23 then Inr us else Inl OverflowError)"

definition datetime_to_simtime :: "datetime \<Rightarrow> real" where
  \<comment> \<open>\<open>START_DATE\<close> is the datetime 0\<close>
  "datetime_to_simtime dt = timedelta_to_simtimedelta (dt - 0)"

section \<open>Jobs: job.py\<close>

record job =
  id_job :: nat
  arrive_time :: datetime
  size_job :: real
  size_remaining :: real
  deadline :: datetime
  accepted :: "bool option"
  last_processed :: "datetime option"

definition finished :: "job \<Rightarrow> bool" where
  "finished j = (size_remaining j = 0)"

definition finish_time :: "job \<Rightarrow> datetime option" where
  "finish_time j = (if finished j then last_processed j else None)"

definition finished_before_deadline :: "job \<Rightarrow> error + bool" where
  \<comment> \<open>comparing \<open>None\<close> with a timestamp is a \<open>TypeError\<close>\<close>
  "finished_before_deadline j =
     (if \<not> finished j then Inl ValueError
      else case finish_time j of
             None \<Rightarrow> Inl TypeError
           | Some t \<Rightarrow> Inr (t \<le> deadline j))"

text \<open>
  The interval \<open>end_time - start_time\<close> is a pandas \<open>Timedelta\<close>, a whole number of
  nanoseconds. \<open>Timedelta * float\<close> multiplies the nanoseconds, as a double, by the float
  and converts the product to whole nanoseconds; \<open>Timedelta.round('s')\<close> then takes the
  nearest whole second, ties to the even one.
\<close>

definition timedelta_mul :: "timedelta \<Rightarrow> real \<Rightarrow> int" where
  \<comment> \<open>\<open>td * f\<close>, in nanoseconds\<close>
  "timedelta_mul td f = trunc (fl (f * fl (real_of_int (td * 1000))))"

definition round_s :: "int \<Rightarrow> timedelta" where
  \<comment> \<open>\<open>.round('s')\<close> of a duration of \<open>ns\<close> nanoseconds, in microseconds\<close>
  "round_s ns = 1000000 * round_half_even (real_of_int ns / 1000000000)"

definition run_for :: "job \<Rightarrow> real \<Rightarrow> datetime \<Rightarrow> datetime \<Rightarrow> error + (real \<times> timedelta \<times> job)" where
  \<comment> \<open>returns \<open>(size_excess, duration)\<close> and the job as the call leaves it\<close>
  "run_for self sz start_time end_time =
     (if \<not> 0 < sz then Inl AssertionError
      else
        let size_remaining' = fl (size_remaining self - sz)
        in if 0 < size_remaining' then
             let size_excess = 0;
                 duration = end_time - start_time
             in Inr (size_excess, duration,
                     self\<lparr>size_remaining := size_remaining',
                          last_processed := Some (start_time + duration)\<rparr>)
           else
             let size_excess = - size_remaining';
                 used_capacity_fraction = fl (size_remaining self / sz);
                 duration = round_s (timedelta_mul (end_time - start_time) used_capacity_fraction)
             in Inr (size_excess, duration,
                     self\<lparr>size_remaining := 0,
                          last_processed := Some (start_time + duration)\<rparr>))"

section \<open>The resource manager: resource_manager.py\<close>

record row =
  u_freep :: real
  u_free :: real
  u_reep :: real
  u_used :: real

text \<open>
  The DataFrame \<open>ResourceManager.u\<close>: its rows in order, each with its index label (the
  datetime at which the step ends). The index is built in increasing order and without
  repetition (\<open>u_real\<close> walks the groups of the load data in order); on such an index
  \<open>.loc[k]\<close> is the row labelled \<open>k\<close> and \<open>.loc[a:b]\<close> the rows labelled from \<open>a\<close> to \<open>b\<close>.
\<close>

type_synonym table = "(datetime \<times> row) list"

definition loc :: "table \<Rightarrow> datetime \<Rightarrow> error + row" where
  \<comment> \<open>\<open>self.u.loc[k]\<close>; a label that is not in the index is a \<open>KeyError\<close>\<close>
  "loc u k = (case map_of u k of None \<Rightarrow> Inl KeyError | Some r \<Rightarrow> Inr r)"

definition loc_slice :: "table \<Rightarrow> datetime \<Rightarrow> datetime \<Rightarrow> table" where
  \<comment> \<open>\<open>self.u.loc[a:b]\<close>: label slicing keeps both ends\<close>
  "loc_slice u a b = filter (\<lambda>(k, r). a \<le> k \<and> k \<le> b) u"

definition add_used :: "table \<Rightarrow> datetime \<Rightarrow> real \<Rightarrow> table" where
  \<comment> \<open>\<open>self.u.loc[k, "u_used"] += x\<close>\<close>
  "add_used u k x = map (\<lambda>(k', r). if k' = k then (k', r\<lparr>u_used := u_used r + x\<rparr>) else (k', r)) u"

definition u_now :: "table \<Rightarrow> datetime \<Rightarrow> error + (real \<times> real)" where
  "u_now u now =
     (case loc u (round_up_dt now) of
        Inl e \<Rightarrow> Inl e
      | Inr r \<Rightarrow> Inr (u_freep r - u_used r, u_free r - u_used r))"

definition scale_last :: "real \<Rightarrow> (real \<times> real) list \<Rightarrow> (real \<times> real) list" where
  \<comment> \<open>\<open>df.iloc[-1] *= f\<close>\<close>
  "scale_last f df = (case rev df of [] \<Rightarrow> [] | (a, b) # rest \<Rightarrow> rev rest @ [(a * f, b * f)])"

definition u_in_daterange :: "table \<Rightarrow> datetime \<Rightarrow> datetime \<Rightarrow> real \<times> real" where
  "u_in_daterange u start end_time =
     (let df = loc_slice u (round_up_dt start) (round_up_dt end_time);
          df = map (\<lambda>(k, r). (u_freep r - u_used r, u_free r - u_used r)) df;
          last_fraction = real_of_int (end_time - round_down_dt end_time)
                            / real_of_int (timedelta TIME_STEP 0 0)
      in if 1 < length df then
           let df = scale_last last_fraction df
           in (sum_list (map fst df), sum_list (map snd df))
         else (0, 0))"

definition u_used_at :: "table \<Rightarrow> datetime \<Rightarrow> error + real" where
  \<comment> \<open>\<open>ResourceManager.u_used\<close>\<close>
  "u_used_at u now = (case loc u (round_up_dt now) of Inl e \<Rightarrow> Inl e | Inr r \<Rightarrow> Inr (u_used r))"

definition notify_usage :: "table \<Rightarrow> datetime \<Rightarrow> real \<Rightarrow> (error + unit) \<times> table" where
  \<comment> \<open>the outcome, and the table as the call leaves it (also when it raises)\<close>
  "notify_usage u now x =
     (case loc u (round_up_dt now) of
        Inl e \<Rightarrow> (Inl e, u)
      | Inr _ \<Rightarrow>
          let u' = add_used u (round_up_dt now) x
          in case u_now u' now of
               Inl e \<Rightarrow> (Inl e, u')
             | Inr (_, free) \<Rightarrow> if 0 \<le> free then (Inr (), u') else (Inl AssertionError, u'))"



section \<open>Rounding to the time step\<close>

lemma round_down_dt_mod: "round_down_dt dt = dt - dt mod 600000000"
proof -
  define A where "A = dt div 60000000 mod 10"
  define B where "B = dt div 1000000 mod 60"
  define C where "C = dt mod 1000000"
  define D where "D = dt mod 60000000"
  define E where "E = dt mod 600000000"
  have n1: "(60000000::int) * 10 = 600000000" and n2: "(1000000::int) * 60 = 60000000"
    by simp_all
  have "dt mod (60000000 * 10) = 60000000 * (dt div 60000000 mod 10) + dt mod 60000000"
    by (rule zmod_zmult2_eq) simp
  then have a: "E = 60000000 * A + D"
    unfolding n1 A_def D_def E_def .
  have "dt mod (1000000 * 60) = 1000000 * (dt div 1000000 mod 60) + dt mod 1000000"
    by (rule zmod_zmult2_eq) simp
  then have b: "D = 1000000 * B + C"
    unfolding n2 B_def C_def D_def .
  have "(dt div 60000000) mod 60 mod 10 = (dt div 60000000) mod 10"
    by (rule mod_mod_cancel) simp
  then have c: "minute dt mod TIME_STEP = A"
    unfolding minute_def TIME_STEP_def A_def .
  have d: "second dt = B" "microsecond dt = C"
    unfolding second_def microsecond_def B_def C_def by (rule refl)+
  have "round_down_dt dt = dt - (A * 60000000 + B * 1000000 + C)"
    unfolding round_down_dt_def timedelta_def c d by (rule refl)
  also have "\<dots> = dt - E"
    using a b by linarith
  finally show ?thesis unfolding E_def .
qed

lemma step_length: "timedelta TIME_STEP 0 0 = 600000000"
  by (simp add: timedelta_def TIME_STEP_def)

lemma round_up_dt_mod: "round_up_dt dt = dt - dt mod 600000000 + 600000000"
  by (simp add: round_up_dt_def round_down_dt_mod step_length)

lemma round_down_dt_le: "round_down_dt dt \<le> dt"
  by (simp add: round_down_dt_mod)


section \<open>Rounding to doubles\<close>

lemma round_half_even_bounds: "\<bar>real_of_int (round_half_even x) - x\<bar> \<le> 1 / 2"
proof -
  have "real_of_int \<lfloor>x\<rfloor> \<le> x" and "x < real_of_int \<lfloor>x\<rfloor> + 1"
    by linarith+
  then show ?thesis
    unfolding round_half_even_def Let_def by (simp add: abs_if) linarith
qed

lemma round_half_even_of_int: "round_half_even (real_of_int n) = n"
  by (simp add: round_half_even_def)

lemma round_half_even_minus: "round_half_even (- x) = - round_half_even x"
proof (cases "x = real_of_int \<lfloor>x\<rfloor>")
  case True
  then have "round_half_even (- x) = round_half_even (real_of_int (- \<lfloor>x\<rfloor>))" by simp
  also have "\<dots> = - \<lfloor>x\<rfloor>" by (rule round_half_even_of_int)
  also have "\<lfloor>x\<rfloor> = round_half_even (real_of_int \<lfloor>x\<rfloor>)" by (simp only: round_half_even_of_int)
  finally show ?thesis using True by simp
next
  case False
  then have "\<lceil>x\<rceil> = \<lfloor>x\<rfloor> + 1" by (simp add: ceiling_altdef)
  then have f: "\<lfloor>- x\<rfloor> = - \<lfloor>x\<rfloor> - 1" by (simp add: floor_minus)
  define n where "n = \<lfloor>x\<rfloor>"
  define d where "d = x - real_of_int n"
  have x: "x = real_of_int n + d" by (simp add: d_def)
  have e: "even (- n - 1) \<longleftrightarrow> odd n" by simp
  show ?thesis
    unfolding round_half_even_def Let_def f n_def [symmetric]
    unfolding x using e by (auto simp: algebra_simps)
qed

lemma float_exponent_bounds:
  assumes "x \<noteq> 0"
  shows "2 powi float_exponent x \<le> \<bar>x\<bar>" and "\<bar>x\<bar> < 2 powi (float_exponent x + 1)"
proof -
  have "2 powi float_exponent x \<le> \<bar>x\<bar> \<and> \<bar>x\<bar> < 2 powi (float_exponent x + 1)"
  proof (cases "1 \<le> \<bar>x\<bar>")
    case True
    define n where "n = \<lfloor>\<bar>x\<bar>\<rfloor>"
    define b where "b = bitlen n"
    from True have n: "0 < n" by (simp add: n_def)
    then have b1: "1 \<le> b" unfolding b_def by (simp add: bitlen_alt_def)
    from bitlen_bounds [OF n] have lo: "2 ^ nat (b - 1) \<le> n" and hi: "n < 2 ^ nat b"
      by (simp_all add: b_def)
    have e: "float_exponent x = b - 1"
      using True by (simp add: float_exponent_def b_def n_def)
    have "real_of_int n \<le> \<bar>x\<bar>" and "\<bar>x\<bar> < real_of_int n + 1"
      unfolding n_def by linarith+
    moreover from lo have "(2::real) ^ nat (b - 1) \<le> real_of_int n"
      by (metis of_int_le_iff of_int_numeral of_int_power)
    moreover from hi have "n + 1 \<le> 2 ^ nat b" by simp
    then have "real_of_int (n + 1) \<le> (2::real) ^ nat b"
      by (metis of_int_le_iff of_int_numeral of_int_power)
    ultimately have "(2::real) ^ nat (b - 1) \<le> \<bar>x\<bar>" and "\<bar>x\<bar> < (2::real) ^ nat b"
      by linarith+
    then show ?thesis
      unfolding e using b1 by (simp add: power_int_nonneg_exp)
  next
    case False
    define y where "y = 1 / \<bar>x\<bar>"
    define m where "m = \<lceil>y\<rceil> - 1"
    define b where "b = bitlen m"
    from False assms have y1: "1 < y" by (simp add: y_def)
    then have m: "0 < m" unfolding m_def by linarith
    then have b1: "1 \<le> b" unfolding b_def by (simp add: bitlen_alt_def)
    from bitlen_bounds [OF m] have lo: "2 ^ nat (b - 1) \<le> m" and hi: "m < 2 ^ nat b"
      by (simp_all add: b_def)
    have e: "float_exponent x = - b"
      using False by (simp add: float_exponent_def b_def m_def y_def)
    have my: "real_of_int m < y" and ym: "y \<le> real_of_int m + 1"
      unfolding m_def by linarith+
    from lo have "(2::real) ^ nat (b - 1) \<le> real_of_int m"
      by (metis of_int_le_iff of_int_numeral of_int_power)
    with my have ylo: "(2::real) ^ nat (b - 1) < y" by linarith
    from hi have "m + 1 \<le> 2 ^ nat b" by simp
    then have "real_of_int (m + 1) \<le> (2::real) ^ nat b"
      by (metis of_int_le_iff of_int_numeral of_int_power)
    with ym have yhi: "y \<le> (2::real) ^ nat b" by linarith
    have xy: "\<bar>x\<bar> = 1 / y" using assms by (simp add: y_def)
    have p1: "(2::real) powi (- b) = 1 / 2 ^ nat b"
      using b1 by (simp add: power_int_minus_divide power_int_nonneg_exp)
    have p2: "(2::real) powi (- b + 1) = 1 / 2 ^ nat (b - 1)"
    proof -
      have "(2::real) powi (- b + 1) = 2 powi (- (b - 1))" by simp
      also have "\<dots> = 1 / 2 ^ nat (b - 1)"
        using b1 by (simp only: power_int_minus_divide) (simp add: power_int_nonneg_exp)
      finally show ?thesis .
    qed
    have "1 / (2::real) ^ nat b \<le> 1 / y"
      using yhi y1 by (simp add: frac_le)
    moreover have "1 / y < 1 / (2::real) ^ nat (b - 1)"
      using ylo by (simp add: frac_less2)
    ultimately show ?thesis unfolding e p1 p2 xy by simp
  qed
  then show "2 powi float_exponent x \<le> \<bar>x\<bar>" and "\<bar>x\<bar> < 2 powi (float_exponent x + 1)"
    by simp_all
qed

lemma power2_int_less_imp: "(2::real) powi a < 2 powi b \<Longrightarrow> a < b"
  by (metis linorder_not_less one_le_numeral power_int_increasing)

lemma ulp_pos: "0 < ulp x"
  by (simp add: ulp_def)

lemma ulp_minus: "ulp (- x) = ulp x"
  by (simp add: ulp_def float_exponent_def)

lemma fl_minus: "fl (- x) = - fl x"
  by (simp add: fl_def ulp_minus round_half_even_minus)

lemma fl_error: "\<bar>fl x - x\<bar> \<le> ulp x / 2"
proof (cases "x = 0")
  case True
  then show ?thesis using ulp_pos [of x] by (simp add: fl_def)
next
  case False
  define u where "u = ulp x"
  have u: "0 < u" unfolding u_def by (rule ulp_pos)
  define k where "k = real_of_int (round_half_even (x / u))"
  have "\<bar>k - x / u\<bar> \<le> 1 / 2" unfolding k_def by (rule round_half_even_bounds)
  then have "\<bar>k - x / u\<bar> * u \<le> 1 / 2 * u" using u by (simp only: mult_right_mono less_imp_le)
  moreover have "\<bar>k - x / u\<bar> * u = \<bar>k * u - x\<bar>"
  proof -
    have "\<bar>k - x / u\<bar> * u = \<bar>(k - x / u) * u\<bar>" using u by (simp add: abs_mult)
    also have "(k - x / u) * u = k * u - x" using u by (simp add: field_simps)
    finally show ?thesis .
  qed
  ultimately have "\<bar>k * u - x\<bar> \<le> u / 2" by simp
  then show ?thesis using False by (simp add: fl_def k_def u_def)
qed

lemma ulp_le:
  assumes "x \<noteq> 0" and "\<bar>x\<bar> < 2 powi k" and "- 1021 \<le> k"
  shows "ulp x \<le> 2 powi (k - 53)"
proof -
  have "2 powi float_exponent x < (2::real) powi k"
    using float_exponent_bounds(1) [OF assms(1)] assms(2) by linarith
  then have "float_exponent x < k" by (rule power2_int_less_imp)
  with assms(3) have "max (float_exponent x) (- 1022) - 52 \<le> k - 53" by simp
  then show ?thesis unfolding ulp_def by (rule power_int_increasing) simp
qed

lemma fl_error_bound:
  assumes "\<bar>x\<bar> < 2 powi k" and "- 1021 \<le> k"
  shows "\<bar>fl x - x\<bar> \<le> 2 powi (k - 54)"
proof (cases "x = 0")
  case True
  then show ?thesis by (simp add: fl_def)
next
  case False
  have "\<bar>fl x - x\<bar> \<le> ulp x / 2" by (rule fl_error)
  also have "\<dots> \<le> 2 powi (k - 53) / 2"
    using ulp_le [OF False assms] by simp
  also have "\<dots> = 2 powi (k - 54)"
  proof -
    have "(2::real) powi (k - 53) = 2 powi ((k - 54) + 1)" by simp
    also have "\<dots> = 2 powi (k - 54) * 2 powi 1" by (rule power_int_add) simp
    finally show ?thesis by simp
  qed
  finally show ?thesis .
qed

lemma fl_rel_error:
  assumes "2 powi (- 1022) \<le> \<bar>x\<bar>"
  shows "\<bar>fl x - x\<bar> \<le> \<bar>x\<bar> / 2 ^ 53"
proof -
  have nz: "x \<noteq> 0" using assms by auto
  have "(2::real) powi (- 1022) < 2 powi (float_exponent x + 1)"
    using float_exponent_bounds(2) [OF nz] assms by linarith
  then have "- 1022 < float_exponent x + 1" by (rule power2_int_less_imp)
  then have m: "max (float_exponent x) (- 1022) = float_exponent x" by simp
  have "ulp x = 2 powi (float_exponent x - 52)" unfolding ulp_def m ..
  also have "\<dots> = 2 powi float_exponent x / 2 ^ 52"
    by (simp add: power_int_diff)
  also have "\<dots> \<le> \<bar>x\<bar> / 2 ^ 52"
    using float_exponent_bounds(1) [OF nz] by (simp add: divide_right_mono)
  finally have "ulp x / 2 \<le> \<bar>x\<bar> / 2 ^ 52 / 2" by simp
  with fl_error [of x] show ?thesis by simp
qed

lemma round_half_even_nonpos: "y \<le> 0 \<Longrightarrow> round_half_even y \<le> 0"
  using round_half_even_bounds [of y] by linarith

lemma round_half_even_pos: "1 / 2 < y \<Longrightarrow> 1 \<le> round_half_even y"
  using round_half_even_bounds [of y] by linarith

lemma fl_nonpos: "x \<le> 0 \<Longrightarrow> fl x \<le> 0"
proof -
  assume "x \<le> 0"
  then have "x / ulp x \<le> 0" using ulp_pos [of x] by (simp add: divide_nonpos_pos)
  then have "round_half_even (x / ulp x) \<le> 0" by (rule round_half_even_nonpos)
  then have "real_of_int (round_half_even (x / ulp x)) * ulp x \<le> 0"
    using ulp_pos [of x] by (simp add: mult_le_0_iff)
  then show ?thesis by (simp add: fl_def)
qed

lemma ulp_ge: "2 powi (- 1074) \<le> ulp x"
  unfolding ulp_def by (rule power_int_increasing) simp_all

lemma fl_pos:
  assumes "2 powi (- 1075) < x"
  shows "0 < fl x"
proof -
  have x: "0 < x" using assms zero_less_power_int [of "2::real" "- 1075"] by linarith
  define u where "u = ulp x"
  have u: "0 < u" unfolding u_def by (rule ulp_pos)
  have "u / 2 < x"
  proof (cases "float_exponent x \<le> - 1022")
    case True
    then have "u = 2 powi (- 1074)" by (simp add: u_def ulp_def max_def)
    moreover have "(2::real) powi (- 1075 + 1) = 2 powi (- 1075) * 2 powi 1"
      by (rule power_int_add) simp
    ultimately show ?thesis using assms by simp
  next
    case False
    then have "u = 2 powi (float_exponent x - 52)" by (simp add: u_def ulp_def max_def)
    also have "\<dots> \<le> 2 powi float_exponent x" by (rule power_int_increasing) simp_all
    also have "\<dots> \<le> x" using float_exponent_bounds(1) [of x] x by simp
    finally show ?thesis using u by linarith
  qed
  then have "1 / 2 < x / u" using u by (simp add: field_simps)
  then have "1 \<le> round_half_even (x / u)" by (rule round_half_even_pos)
  then have "0 < real_of_int (round_half_even (x / u)) * u" using u by simp
  then show ?thesis using x by (simp add: fl_def u_def)
qed

lemma double_multiple:
  assumes "fl x = x"
  shows "\<exists>k. x = real_of_int k * 2 powi (- 1074)"
proof (cases "x = 0")
  case True
  then have "x = real_of_int 0 * 2 powi (- 1074)" by simp
  then show ?thesis ..
next
  case False
  define m where "m = max (float_exponent x) (- 1022) - 52"
  define c where "c = round_half_even (x / ulp x)"
  have m: "0 \<le> m + 1074" by (simp add: m_def)
  have "ulp x = 2 powi ((m + 1074) + (- 1074))" by (simp add: ulp_def m_def)
  also have "\<dots> = 2 powi (m + 1074) * 2 powi (- 1074)" by (rule power_int_add) simp
  also have "(2::real) powi (m + 1074) = real_of_int (2 ^ nat (m + 1074))"
    using m by (simp add: power_int_nonneg_exp)
  finally have u: "ulp x = real_of_int (2 ^ nat (m + 1074)) * 2 powi (- 1074)" .
  from assms False have "x = real_of_int c * ulp x" by (simp add: fl_def c_def)
  then have "x = real_of_int (c * 2 ^ nat (m + 1074)) * 2 powi (- 1074)"
    unfolding u by (simp only: of_int_mult mult.assoc)
  then show ?thesis ..
qed

lemma double_difference:
  assumes a: "fl a = a" and b: "fl b = b" and lt: "a < b"
  shows "0 < fl (b - a)"
proof -
  from double_multiple [OF a] obtain ka where ka: "a = real_of_int ka * 2 powi (- 1074)" ..
  from double_multiple [OF b] obtain kb where kb: "b = real_of_int kb * 2 powi (- 1074)" ..
  define p :: real where "p = 2 powi (- 1074)"
  have p: "0 < p" by (simp add: p_def)
  from lt have "real_of_int ka * p < real_of_int kb * p" unfolding ka kb p_def .
  then have "ka < kb" using p by (simp add: mult_less_cancel_right)
  then have "1 \<le> kb - ka" by simp
  then have "1 \<le> real_of_int (kb - ka)" by linarith
  then have "1 * p \<le> real_of_int (kb - ka) * p" using p by (simp only: mult_right_mono less_imp_le)
  then have "p \<le> b - a" unfolding ka kb p_def [symmetric] by (simp add: algebra_simps)
  moreover have "(2::real) powi (- 1075) < p"
    unfolding p_def by (rule power_int_strict_increasing) simp_all
  ultimately have "2 powi (- 1075) < b - a" by linarith
  then show ?thesis by (rule fl_pos)
qed

lemma fl_of_int:
  assumes "\<bar>n\<bar> < 2 ^ 53"
  shows "fl (real_of_int n) = real_of_int n"
proof (cases "n = 0")
  case True
  then show ?thesis by (simp add: fl_def)
next
  case False
  define x where "x = real_of_int n"
  define e where "e = float_exponent x"
  have nz: "x \<noteq> 0" using False by (simp add: x_def)
  have x1: "1 \<le> \<bar>x\<bar>" using False unfolding x_def by (simp flip: of_int_abs)
  have "\<bar>x\<bar> < 2 ^ 53"
  proof -
    have "real_of_int \<bar>n\<bar> < real_of_int (2 ^ 53)" using assms by (simp only: of_int_less_iff)
    then show ?thesis by (simp add: x_def)
  qed
  then have x2: "\<bar>x\<bar> < 2 powi 53" by simp
  have "2 powi e < (2::real) powi 53"
    using float_exponent_bounds(1) [OF nz] x2 unfolding e_def by linarith
  then have e1: "e \<le> 52" using power2_int_less_imp [of e 53] by simp
  have "(2::real) powi 0 < 2 powi (e + 1)"
    using float_exponent_bounds(2) [OF nz] x1 unfolding e_def by simp
  then have e0: "0 \<le> e" using power2_int_less_imp [of 0 "e + 1"] by simp
  define k where "k = nat (52 - e)"
  have "ulp x = 2 powi (- int k)"
    using e0 e1 by (simp add: ulp_def e_def [symmetric] k_def)
  then have u: "ulp x = 1 / 2 ^ k" by (simp add: power_int_minus_divide)
  have "x / ulp x = real_of_int (n * 2 ^ k)" unfolding u by (simp add: x_def)
  then have "round_half_even (x / ulp x) = n * 2 ^ k" by (simp only: round_half_even_of_int)
  then have "fl x = real_of_int (n * 2 ^ k) * (1 / 2 ^ k)" using nz by (simp add: fl_def u)
  also have "\<dots> = x" by (simp add: x_def)
  finally show ?thesis unfolding x_def .
qed

lemma trunc_bounds: "\<bar>real_of_int (trunc x) - x\<bar> < 1"
  unfolding trunc_def by (simp add: abs_if) linarith


section \<open>Running a job\<close>

lemma round_s_whole: "round_s ns mod 1000000 = 0"
  by (simp add: round_s_def)

lemma round_s_near: "\<bar>real_of_int (round_s ns) - real_of_int ns / 1000\<bar> \<le> 500000"
proof -
  have "\<bar>real_of_int (round_half_even (real_of_int ns / 1000000000)) - real_of_int ns / 1000000000\<bar> \<le> 1 / 2"
    by (rule round_half_even_bounds)
  then show ?thesis
    unfolding round_s_def by (simp add: abs_if split: if_splits)
qed

lemma timedelta_mul_near:
  assumes q: "0 \<le> q" "q \<le> 1" and td: "0 \<le> td" "td \<le> 10 ^ 12"
  shows "\<bar>real_of_int (timedelta_mul td (fl q)) - real_of_int (td * 1000) * q\<bar> \<le> 2"
proof -
  define V where "V = real_of_int (td * 1000)"
  define f where "f = fl q"
  have V: "0 \<le> V" "V \<le> 10 ^ 15"
  proof -
    from td have "0 \<le> td * 1000" and "td * 1000 \<le> 10 ^ 15" by simp_all
    then have "real_of_int 0 \<le> V" and "V \<le> real_of_int (10 ^ 15)"
      unfolding V_def by (simp_all only: of_int_le_iff)
    then show "0 \<le> V" "V \<le> 10 ^ 15" by simp_all
  qed
  have "\<bar>td * 1000\<bar> < 2 ^ 53" using td by simp
  then have flV: "fl (real_of_int (td * 1000)) = V" unfolding V_def by (rule fl_of_int)
  have "\<bar>q\<bar> < 2 powi 1" using q by simp
  then have "\<bar>fl q - q\<bar> \<le> 2 powi (1 - 54)" by (rule fl_error_bound) simp
  then have fq: "\<bar>f - q\<bar> \<le> 1 / 2 ^ 53" by (simp add: f_def power_int_minus_divide)
  then have f: "\<bar>f\<bar> \<le> 2" using q by (simp add: abs_if split: if_splits)
  have "\<bar>f * V\<bar> = \<bar>f\<bar> * V" using V by (simp add: abs_mult)
  also have "\<dots> \<le> 2 * 10 ^ 15" using f V by (intro mult_mono) simp_all
  also have "\<dots> < (2::real) powi 51" by simp
  finally have "\<bar>fl (f * V) - f * V\<bar> \<le> 2 powi (51 - 54)" by (rule fl_error_bound) simp
  then have e1: "\<bar>fl (f * V) - f * V\<bar> \<le> 1 / 8" by (simp add: power_int_minus_divide)
  have "f * V - V * q = (f - q) * V" by (simp add: algebra_simps)
  then have "\<bar>f * V - V * q\<bar> = \<bar>f - q\<bar> * V" using V by (simp add: abs_mult)
  also have "\<dots> \<le> 1 / 2 ^ 53 * 10 ^ 15" using fq V by (intro mult_mono) simp_all
  also have "\<dots> \<le> 1 / 8" by simp
  finally have e2: "\<bar>f * V - V * q\<bar> \<le> 1 / 8" .
  have e3: "\<bar>real_of_int (trunc (fl (f * V))) - fl (f * V)\<bar> < 1" by (rule trunc_bounds)
  have "timedelta_mul td (fl q) = trunc (fl (f * V))"
    unfolding timedelta_mul_def flV f_def ..
  with e1 e2 e3 show ?thesis unfolding V_def [symmetric] by linarith
qed

lemma run_for_nonpositive: "amount \<le> 0 \<Longrightarrow> run_for j amount s e = Inl AssertionError"
  by (simp add: run_for_def)

lemma run_for_partial:
  "0 < amount \<Longrightarrow> 0 < fl (size_remaining j - amount) \<Longrightarrow>
   run_for j amount s e =
     Inr (0, e - s, j\<lparr>size_remaining := fl (size_remaining j - amount),
                      last_processed := Some (s + (e - s))\<rparr>)"
  by (simp add: run_for_def)

lemma run_for_complete:
  "0 < amount \<Longrightarrow> \<not> 0 < fl (size_remaining j - amount) \<Longrightarrow>
   run_for j amount s e =
     Inr (fl (amount - size_remaining j),
          round_s (timedelta_mul (e - s) (fl (size_remaining j / amount))),
          j\<lparr>size_remaining := 0,
            last_processed :=
              Some (s + round_s (timedelta_mul (e - s) (fl (size_remaining j / amount))))\<rparr>)"
proof -
  have "- fl (size_remaining j - amount) = fl (amount - size_remaining j)"
    by (simp flip: fl_minus)
  then show "0 < amount \<Longrightarrow> \<not> 0 < fl (size_remaining j - amount) \<Longrightarrow> ?thesis"
    by (simp add: run_for_def Let_def)
qed

text \<open>
  C3, as amended. \<open>run_for\<close> with a non-positive amount fails its assertion. With an
  amount \<open>> 0\<close> on a job with remaining work \<open>r\<close>, both doubles: when the amount is below
  \<open>r\<close> the excess is 0, the duration is \<open>e - s\<close> and the remaining work becomes the
  double nearest to \<open>r - amount\<close>, which is positive. When \<open>0 < r \<le> amount\<close> the excess is
  the double nearest to \<open>amount - r\<close>, the remaining work becomes 0, and the duration is
  the interval in nanoseconds times the double nearest to \<open>r / amount\<close>, the product
  rounded to a double and cut to whole nanoseconds, then rounded to the nearest whole
  second, ties to the even one: a multiple of one second that, for an interval of at most
  \<open>10 ^ 12\<close> microseconds, lies within half a second and two nanoseconds of
  \<open>(e - s) * r / amount\<close>. In both cases \<open>last_processed\<close> becomes \<open>s + duration\<close> and no
  other field changes.
\<close>

theorem run_for_spec:
  "(amount \<le> 0 \<longrightarrow> run_for j amount s e = Inl AssertionError) \<and>
   (0 < amount \<and> fl amount = amount \<and> fl (size_remaining j) = size_remaining j \<and>
    amount < size_remaining j \<longrightarrow>
      0 < fl (size_remaining j - amount) \<and>
      run_for j amount s e =
        Inr (0, e - s,
             j\<lparr>size_remaining := fl (size_remaining j - amount),
               last_processed := Some (s + (e - s))\<rparr>)) \<and>
   (0 < amount \<and> 0 < size_remaining j \<and> size_remaining j \<le> amount \<longrightarrow>
      (let duration = round_s (timedelta_mul (e - s) (fl (size_remaining j / amount)))
       in run_for j amount s e =
            Inr (fl (amount - size_remaining j), duration,
                 j\<lparr>size_remaining := 0, last_processed := Some (s + duration)\<rparr>) \<and>
          duration mod 1000000 = 0 \<and>
          (0 \<le> e - s \<and> e - s \<le> 10 ^ 12 \<longrightarrow>
             \<bar>real_of_int duration - real_of_int (e - s) * (size_remaining j / amount)\<bar>
               \<le> 500000 + 1 / 500)))"
proof (intro conjI impI)
  assume "amount \<le> 0"
  then show "run_for j amount s e = Inl AssertionError"
    by (rule run_for_nonpositive)
next
  assume h: "0 < amount \<and> fl amount = amount \<and> fl (size_remaining j) = size_remaining j \<and>
    amount < size_remaining j"
  then show pos: "0 < fl (size_remaining j - amount)"
    by (intro double_difference) simp_all
  from h pos show "run_for j amount s e =
        Inr (0, e - s,
             j\<lparr>size_remaining := fl (size_remaining j - amount),
               last_processed := Some (s + (e - s))\<rparr>)"
    by (simp add: run_for_partial)
next
  define r where "r = size_remaining j"
  define ns where "ns = timedelta_mul (e - s) (fl (r / amount))"
  assume h: "0 < amount \<and> 0 < size_remaining j \<and> size_remaining j \<le> amount"
  then have "fl (r - amount) \<le> 0" unfolding r_def by (intro fl_nonpos) simp
  with h have run: "run_for j amount s e =
     Inr (fl (amount - r), round_s ns, j\<lparr>size_remaining := 0, last_processed := Some (s + round_s ns)\<rparr>)"
    unfolding r_def ns_def by (intro run_for_complete) simp_all
  have near: "\<bar>real_of_int (round_s ns) - real_of_int (e - s) * (r / amount)\<bar> \<le> 500000 + 1 / 500"
    if td: "0 \<le> e - s \<and> e - s \<le> 10 ^ 12"
  proof -
    from h have "0 \<le> r / amount" and "r / amount \<le> 1" by (simp_all add: r_def)
    with td have "\<bar>real_of_int ns - real_of_int ((e - s) * 1000) * (r / amount)\<bar> \<le> 2"
      unfolding ns_def by (intro timedelta_mul_near) simp_all
    moreover define X where "X = real_of_int (e - s) * (r / amount)"
    then have "real_of_int ((e - s) * 1000) * (r / amount) = 1000 * X"
      by simp
    ultimately have "\<bar>real_of_int ns - 1000 * X\<bar> \<le> 2" by (simp only:)
    then have "\<bar>real_of_int ns / 1000 - X\<bar> \<le> 1 / 500" by linarith
    with round_s_near [of ns] show ?thesis unfolding X_def by linarith
  qed
  show "let duration = round_s (timedelta_mul (e - s) (fl (size_remaining j / amount)))
       in run_for j amount s e =
            Inr (fl (amount - size_remaining j), duration,
                 j\<lparr>size_remaining := 0, last_processed := Some (s + duration)\<rparr>) \<and>
          duration mod 1000000 = 0 \<and>
          (0 \<le> e - s \<and> e - s \<le> 10 ^ 12 \<longrightarrow>
             \<bar>real_of_int duration - real_of_int (e - s) * (size_remaining j / amount)\<bar>
               \<le> 500000 + 1 / 500)"
    unfolding Let_def r_def [symmetric] ns_def [symmetric]
    using run near round_s_whole [of ns] by blast
qed

definition job0 :: job where
  \<comment> \<open>a job of 50 mch that arrives at the start date, due one step later\<close>
  "job0 = \<lparr>id_job = 0, arrive_time = 0, size_job = 50, size_remaining = 50,
            deadline = 600000000, accepted = None, last_processed = None\<rparr>"

lemma double_values: "fl 20 = 20" "fl 30 = 30" "fl 50 = 50"
  by code_simp+

theorem run_for_spec_witness:
  "run_for job0 0 0 600000000 = Inl AssertionError \<and>
   run_for job0 20 0 600000000 =
     Inr (0, 600000000, job0\<lparr>size_remaining := 30, last_processed := Some 600000000\<rparr>) \<and>
   run_for job0 100 0 600000000 =
     Inr (50, 300000000, job0\<lparr>size_remaining := 0, last_processed := Some 300000000\<rparr>) \<and>
   \<bar>real_of_int 300000000 - real_of_int (600000000 - 0) * (50 / 100)\<bar> \<le> 500000 + 1 / 500"
proof -
  let ?D = "round_s (timedelta_mul (600000000 - 0) (fl (size_remaining job0 / 100)))"
  have s: "size_remaining job0 = 50" by (simp add: job0_def)
  have D: "?D = 300000000" by code_simp
  from run_for_spec [of 0 job0 0 600000000]
  have a: "run_for job0 0 0 600000000 = Inl AssertionError" by simp
  from run_for_spec [of 20 job0 0 600000000]
  have b: "run_for job0 20 0 600000000 =
     Inr (0, 600000000 - 0,
          job0\<lparr>size_remaining := fl (size_remaining job0 - 20),
                last_processed := Some (0 + (600000000 - 0))\<rparr>)"
    using s double_values by simp
  from run_for_spec [of 100 job0 0 600000000]
  have c: "run_for job0 100 0 600000000 =
       Inr (fl (100 - size_remaining job0), ?D,
            job0\<lparr>size_remaining := 0, last_processed := Some (0 + ?D)\<rparr>) \<and>
     \<bar>real_of_int ?D - real_of_int (600000000 - 0) * (size_remaining job0 / 100)\<bar>
       \<le> 500000 + 1 / 500"
    using s by (simp add: Let_def)
  from a b c [unfolded D] show ?thesis
    using s double_values by simp
qed

text \<open>
  The claim as stated has the duration equal to \<open>(e - s) * r / amount\<close> rounded to whole
  seconds. With 11 mch left and 240 mch offered over ten minutes the exact value is 27.5 s,
  which rounds to 28 s (ties to even); the product in doubles is 27499999999.999996 ns,
  cut to 27499999999 ns, and the duration is 27 s. With 285000000004 mch left and
  6000000000000 mch offered the exact value is 28.5000000004 s, nearer to 29 s than to
  28 s; the product is cut to 28500000000 ns, a tie, and the duration is 28 s.
\<close>

definition job11 :: job where
  "job11 = \<lparr>id_job = 0, arrive_time = 0, size_job = 11, size_remaining = 11,
             deadline = 600000000, accepted = None, last_processed = None\<rparr>"

theorem run_for_duration_not_nearest:
  "run_for job11 240 0 600000000 =
     Inr (229, 27000000, job11\<lparr>size_remaining := 0, last_processed := Some 27000000\<rparr>) \<and>
   real_of_int (600000000 - 0) * (11 / 240) = 27500000 \<and>
   1000000 * round_half_even (real_of_int (600000000 - 0) * (11 / 240) / 1000000) = 28000000 \<and>
   run_for (job11\<lparr>size_remaining := 285000000004\<rparr>) 6000000000000 0 600000000 =
     Inr (5714999999996, 28000000,
          job11\<lparr>size_remaining := 0, last_processed := Some 28000000\<rparr>) \<and>
   real_of_int (600000000 - 0) * (285000000004 / 6000000000000) = 28500000 + 1 / 2500 \<and>
   1000000 * round_half_even (real_of_int (600000000 - 0) * (285000000004 / 6000000000000) / 1000000)
     = 29000000"
  by code_simp


section \<open>The capacity ceiling\<close>















text \<open>A table of two steps, for concrete runs.\<close>

definition table0 :: table where
  "table0 = [(600000000, \<lparr>u_freep = 60, u_free = 100, u_reep = 60, u_used = 0\<rparr>),
             (1200000000, \<lparr>u_freep = 40, u_free = 100, u_reep = 40, u_used = 0\<rparr>)]"











section \<open>Capacity over a range\<close>


definition last_fraction :: "datetime \<Rightarrow> real" where
  "last_fraction end_time =
     real_of_int (end_time - round_down_dt end_time) / real_of_int (timedelta TIME_STEP 0 0)"







































section \<open>The execution scheduler: processes/execution.py\<close>

text \<open>
  Jobs are objects: the store maps an address to the job that lives there, and the queue
  and the scheduler hold addresses. The field \<open>now\<close> of the state is the local variable
  \<open>now\<close> of the loop body, the datetime read off the clock at line 37. A process step ends
  at a \<open>yield env.timeout(delay)\<close>; \<open>timeout\<close> is the check simpy makes on the delay.
\<close>

type_synonym store = "nat \<Rightarrow> job"

record exec_state =
  now :: datetime
  jobs :: store
  resource_manager :: table

definition expected_deadline_violation :: "datetime \<Rightarrow> job \<Rightarrow> table \<Rightarrow> bool" where
  "expected_deadline_violation t job rm =
     (if deadline job < t then True
      else let (freep, _) = u_in_daterange rm t (deadline job)
           in if freep < size_remaining job then True else False)"

definition timeout :: "timedelta \<Rightarrow> error + timedelta" where
  \<comment> \<open>\<open>env.timeout(delay)\<close> raises \<open>ValueError\<close> on a negative delay\<close>
  "timeout delay = (if delay < 0 then Inl ValueError else Inr delay)"

definition chosen_capacity :: "bool \<Rightarrow> datetime \<Rightarrow> job \<Rightarrow> table \<Rightarrow> error + real" where
  \<comment> \<open>lines 37 to 40 of the loop body: the capacity the step will run the job with\<close>
  "chosen_capacity simulated t job rm =
     (case u_now rm t of
        Inl e \<Rightarrow> Inl e
      | Inr (freep, free) \<Rightarrow>
          Inr (if \<not> simulated \<and> expected_deadline_violation t job rm then free else freep))"

definition allocate :: "real \<Rightarrow> bool \<Rightarrow> nat \<Rightarrow> exec_state \<Rightarrow> (error + timedelta) \<times> exec_state" where
  \<comment> \<open>lines 42 to 65: run or idle with the chosen capacity, up to the \<open>yield\<close>; returns the
      delay of the timeout, and the state as the step leaves it\<close>
  "allocate freep simulated a s =
     (let t = now s; job = jobs s a
      in if 0 < freep then
           let end_time = round_up_dt t
           in (case run_for job freep t end_time of
                 Inl e \<Rightarrow> (Inl e, s)
               | Inr (size_excess, duration, job') \<Rightarrow>
                   let s1 = s\<lparr>jobs := (jobs s)(a := job')\<rparr>;
                       used = fl (freep - size_excess);
                       (r, rm') = notify_usage (resource_manager s1) t used;
                       s2 = s1\<lparr>resource_manager := rm'\<rparr>
                   in (case r of Inl e \<Rightarrow> (Inl e, s2) | Inr _ \<Rightarrow> (timeout duration, s2)))
         else
           let next_step_datetime = round_up_dt t;
               s1 = (if \<not> simulated
                     then s\<lparr>jobs := (jobs s)(a := job\<lparr>last_processed := Some t\<rparr>)\<rparr>
                     else s)
           in (timeout (next_step_datetime - t), s1))"

definition loop_body :: "bool \<Rightarrow> nat \<Rightarrow> exec_state \<Rightarrow> (error + timedelta) \<times> exec_state" where
  \<comment> \<open>one pass through the body of \<open>while not job.finished\<close>, lines 37 to 65\<close>
  "loop_body simulated a s =
     (case chosen_capacity simulated (now s) (jobs s a) (resource_manager s) of
        Inl e \<Rightarrow> (Inl e, s)
      | Inr freep \<Rightarrow> allocate freep simulated a s)"













section \<open>The loop over one job\<close>

lemma step_remaining: "1 \<le> round_up_dt t - t \<and> round_up_dt t - t \<le> 600000000"
proof -
  have "0 \<le> t mod 600000000" and "t mod 600000000 < 600000000" by simp_all
  then show ?thesis unfolding round_up_dt_mod by linarith
qed

lemma run_for_progress:
  "run_for j c t e = Inr (x, d, j') \<Longrightarrow> finished j' \<or> d = e - t"
  by (auto simp: run_for_def Let_def finished_def split: if_splits)

lemma timeout_Inr: "timeout d = Inr d' \<Longrightarrow> d' = d \<and> 0 \<le> d"
  by (auto simp: timeout_def split: if_splits)

lemma allocate_progress:
  assumes "allocate c simulated a s = (Inr delay, s')"
  shows "now s' = now s \<and> (finished (jobs s' a) \<or> delay = round_up_dt (now s) - now s)"
proof (cases "0 < c")
  case True
  with assms obtain x d j' r rm' where
    run: "run_for (jobs s a) c (now s) (round_up_dt (now s)) = Inr (x, d, j')"
    and n: "notify_usage (resource_manager s) (now s) (fl (c - x)) = (r, rm')"
    and s': "s' = s\<lparr>jobs := (jobs s)(a := j'), resource_manager := rm'\<rparr>"
    and t: "timeout d = Inr delay"
    by (auto simp: allocate_def Let_def split: sum.splits prod.splits)
  from run have "finished j' \<or> d = round_up_dt (now s) - now s" by (rule run_for_progress)
  moreover from t have "delay = d" by (auto dest: timeout_Inr)
  ultimately show ?thesis using s' by auto
next
  case False
  with assms have "timeout (round_up_dt (now s) - now s) = Inr delay" and "now s' = now s"
    by (auto simp: allocate_def Let_def split: if_splits)
  then show ?thesis by (auto dest: timeout_Inr)
qed

lemma loop_body_progress:
  assumes "loop_body simulated a s = (Inr delay, s')"
  shows "now s' = now s \<and> (finished (jobs s' a) \<or> delay = round_up_dt (now s) - now s)"
proof -
  from assms obtain c where "allocate c simulated a s = (Inr delay, s')"
    by (auto simp: loop_body_def split: sum.splits)
  then show ?thesis by (rule allocate_progress)
qed

text \<open>
  A delay of one microsecond to ten minutes moves a clock within \<open>2 ^ 23\<close> steps of the
  start date forward by at least \<open>2 ^ -31\<close> steps, whatever the rounding.
\<close>

lemma simdelta_bounds:
  assumes "1 \<le> d" and "d \<le> 600000000"
  shows "3 / 2 ^ 31 \<le> timedelta_to_simtimedelta d" and "timedelta_to_simtimedelta d \<le> 2"
proof -
  define x1 where "x1 = real_of_int d / 1000000"
  define f1 where "f1 = fl x1"
  define x2 where "x2 = f1 / 600"
  have d: "1 \<le> real_of_int d" "real_of_int d \<le> 600000000" using assms by simp_all
  then have x1: "1 / 1000000 \<le> x1" "x1 \<le> 600" by (simp_all add: x1_def)
  then have "\<bar>x1\<bar> < 2 powi 10" by simp
  then have "\<bar>fl x1 - x1\<bar> \<le> 2 powi (10 - 54)" by (rule fl_error_bound) simp
  then have e1: "\<bar>f1 - x1\<bar> \<le> 1 / 2 ^ 44" by (simp add: f1_def power_int_minus_divide)
  with x1 have f1: "1 / 1000000 - 1 / 2 ^ 44 \<le> f1" "f1 \<le> 600 + 1 / 2 ^ 44" by linarith+
  then have x2: "(1 / 1000000 - 1 / 2 ^ 44) / 600 \<le> x2" "x2 \<le> (600 + 1 / 2 ^ 44) / 600"
    by (simp_all add: x2_def divide_right_mono)
  then have "\<bar>x2\<bar> < 2 powi 1" by simp
  then have "\<bar>fl x2 - x2\<bar> \<le> 2 powi (1 - 54)" by (rule fl_error_bound) simp
  then have e2: "\<bar>fl x2 - x2\<bar> \<le> 1 / 2 ^ 53" by (simp add: power_int_minus_divide)
  have sd: "timedelta_to_simtimedelta d = fl x2"
    by (simp add: timedelta_to_simtimedelta_def TIME_STEP_def x2_def f1_def x1_def)
  from e2 have lo: "x2 - 1 / 2 ^ 53 \<le> fl x2" and hi: "fl x2 \<le> x2 + 1 / 2 ^ 53"
    by linarith+
  have n1: "(3::real) / 2 ^ 31 \<le> (1 / 1000000 - 1 / 2 ^ 44) / 600 - 1 / 2 ^ 53"
    and n2: "((600::real) + 1 / 2 ^ 44) / 600 + 1 / 2 ^ 53 \<le> 2"
    by simp_all
  from lo x2(1) n1 show "3 / 2 ^ 31 \<le> timedelta_to_simtimedelta d"
    unfolding sd by linarith
  from hi x2(2) n2 show "timedelta_to_simtimedelta d \<le> 2"
    unfolding sd by linarith
qed

lemma clock_progress:
  assumes c: "\<bar>clock\<bar> < 2 ^ 23" and d: "1 \<le> d" "d \<le> 600000000"
  shows "clock + 1 / 2 ^ 31 \<le> fl (clock + timedelta_to_simtimedelta d)"
proof -
  define sd where "sd = timedelta_to_simtimedelta d"
  have sd: "3 / 2 ^ 31 \<le> sd" "sd \<le> 2" unfolding sd_def using d by (rule simdelta_bounds)+
  with c have "\<bar>clock + sd\<bar> < 2 powi 24" by simp
  then have "\<bar>fl (clock + sd) - (clock + sd)\<bar> \<le> 2 powi (24 - 54)" by (rule fl_error_bound) simp
  then have "\<bar>fl (clock + sd) - (clock + sd)\<bar> \<le> 1 / 2 ^ 30" by (simp add: power_int_minus_divide)
  then have "clock + sd - 1 / 2 ^ 30 \<le> fl (clock + sd)" by linarith
  moreover have "(3::real) / 2 ^ 31 - 1 / 2 ^ 30 = 1 / 2 ^ 31" by simp
  ultimately show ?thesis unfolding sd_def [symmetric] using sd(1) by linarith
qed

lemma simtime_to_datetime_Inr: "simtime_to_datetime clock = Inr t \<Longrightarrow> \<bar>clock\<bar> < 2 ^ 23"
  by (auto simp: simtime_to_datetime_def Let_def split: if_splits)

text \<open>
  \<open>while not job.finished\<close> under an event loop that runs until \<open>until\<close>. \<open>clock\<close> is
  \<open>env.now\<close>. Each pass reads the datetime \<open>now\<close> off the clock (line 37), runs the body up
  to its \<open>yield env.timeout(delay)\<close>, and the timeout is scheduled at the double nearest
  to \<open>env.now + delay\<close>; the process is resumed there only if that time is before \<open>until\<close>
  (the event that stops the run is urgent, so it goes first at the horizon itself). The
  loop ends \<open>Finished\<close> when the job has no work left, and \<open>Halted\<close> when the run stopped
  first; it returns the clock of its last pass. Every pass either finishes the job or
  moves the clock forward by at least \<open>2 ^ -31\<close> steps, so the loop is total.
\<close>

datatype loop_exit = Finished | Halted

function job_loop ::
  "real \<Rightarrow> bool \<Rightarrow> nat \<Rightarrow> real \<Rightarrow> exec_state \<Rightarrow> (error + loop_exit) \<times> real \<times> exec_state" where
  "job_loop until simulated a clock s =
     (if finished (jobs s a) then (Inr Finished, clock, s)
      else case simtime_to_datetime clock of
             Inl e \<Rightarrow> (Inl e, clock, s)
           | Inr t \<Rightarrow>
               (case loop_body simulated a (s\<lparr>now := t\<rparr>) of
                  (Inl e, s') \<Rightarrow> (Inl e, clock, s')
                | (Inr delay, s') \<Rightarrow>
                    let clock' = fl (clock + timedelta_to_simtimedelta delay)
                    in if until \<le> clock' then (Inr Halted, clock, s')
                       else job_loop until simulated a clock' s'))"
  by pat_completeness auto
termination
proof (relation "measure (\<lambda>(until, simulated, a, clock, s).
          if finished (jobs s a) then 0 else 1 + nat \<lceil>(until - clock) * 2 ^ 31\<rceil>)")
  show "wf (measure (\<lambda>(until, simulated, a, clock, s).
          if finished (jobs s a) then 0 else 1 + nat \<lceil>(until - clock) * 2 ^ 31\<rceil>))"
    by simp
next
  fix until :: real and simulated a clock s t and r :: "error + timedelta" and s' delay clock'
  assume nf: "\<not> finished (jobs s a)" and t: "simtime_to_datetime clock = Inr t"
    and p: "(r, s') = loop_body simulated a (s\<lparr>now := t\<rparr>)"
    and r: "r = Inr delay" and c': "clock' = fl (clock + timedelta_to_simtimedelta delay)"
    and h: "\<not> until \<le> clock'"
  from p r have lb: "loop_body simulated a (s\<lparr>now := t\<rparr>) = (Inr delay, s')" by simp
  have dec: "(if finished (jobs s' a) then 0 else 1 + nat \<lceil>(until - clock') * 2 ^ 31\<rceil>)
      < 1 + nat \<lceil>(until - clock) * 2 ^ 31\<rceil>"
  proof (cases "finished (jobs s' a)")
    case True
    then show ?thesis by simp
  next
    case False
    with loop_body_progress [OF lb] have "delay = round_up_dt t - t" by simp
    then have "1 \<le> delay" and "delay \<le> 600000000" using step_remaining [of t] by simp_all
    with simtime_to_datetime_Inr [OF t] have "clock + 1 / 2 ^ 31 \<le> clock'"
      unfolding c' by (rule clock_progress)
    then have "(until - clock') * 2 ^ 31 \<le> (until - clock) * 2 ^ 31 - 1"
      by (simp add: algebra_simps)
    then have "\<lceil>(until - clock') * 2 ^ 31\<rceil> \<le> \<lceil>(until - clock) * 2 ^ 31\<rceil> - 1"
      by (metis ceiling_diff_one ceiling_mono)
    moreover from h have "0 < (until - clock') * 2 ^ 31" by simp
    then have "0 < \<lceil>(until - clock') * 2 ^ 31\<rceil>" by (simp only: zero_less_ceiling)
    ultimately have "nat \<lceil>(until - clock') * 2 ^ 31\<rceil> < nat \<lceil>(until - clock) * 2 ^ 31\<rceil>"
      by linarith
    with False show ?thesis by simp
  qed
  show "((until, simulated, a, clock', s'), (until, simulated, a, clock, s))
      \<in> measure (\<lambda>(until, simulated, a, clock, s).
          if finished (jobs s a) then 0 else 1 + nat \<lceil>(until - clock) * 2 ^ 31\<rceil>)"
    using dec nf by (simp only: in_measure prod.case if_False)
qed

declare job_loop.simps [simp del]

section \<open>The speculative run\<close>

text \<open>
  \<open>execution_process\<close> with \<open>simulated = True\<close>, as \<open>fake_env.run(until)\<close> drives it: the
  store of the fake queue is the list of the jobs still to be fetched. A job is fetched
  at the clock at which the one before it left its loop. The process returns once a job
  has finished and the queue is empty.
\<close>

fun execution_process_simulated ::
  "real \<Rightarrow> nat list \<Rightarrow> real \<Rightarrow> exec_state \<Rightarrow> (error + unit) \<times> real \<times> exec_state" where
  "execution_process_simulated until [] clock s = (Inr (), clock, s)"
| "execution_process_simulated until (a # items) clock s =
     (case job_loop until True a clock s of
        (Inl e, clock', s') \<Rightarrow> (Inl e, clock', s')
      | (Inr Halted, clock', s') \<Rightarrow> (Inr (), clock', s')
      | (Inr Finished, clock', s') \<Rightarrow>
          (case finished_before_deadline (jobs s' a) of
             Inl e \<Rightarrow> (Inl e, clock', s')
           | Inr _ \<Rightarrow> if items = [] then (Inr (), clock', s')
                      else execution_process_simulated until items clock' s'))"


section \<open>Forecasts: \<open>u_pred\<close> of resource_manager.py\<close>

text \<open>
  The load DataFrame \<open>u_df\<close> has a two-level index: the datetime of the forecast request,
  then the datetime of the forecast result. It is kept as the list of its request
  datetimes, each with its rows in order.
\<close>

record u_df_row =
  raw_u_free :: real
  raw_u_free_pred :: real
  raw_u_reep :: real
  raw_u_reep_pred_expected :: real
  raw_u_reep_pred_conservative :: real
  raw_u_reep_pred_optimistic :: real

type_synonym u_df = "(datetime \<times> (datetime \<times> u_df_row) list) list"

definition set_used :: "table \<Rightarrow> datetime \<Rightarrow> real \<Rightarrow> table" where
  \<comment> \<open>\<open>forecasts.loc[k, "u_used"] = x\<close>\<close>
  "set_used u k x = map (\<lambda>(k', r). if k' = k then (k', r\<lparr>u_used := x\<rparr>) else (k', r)) u"

definition forecast_columns :: "string \<Rightarrow> error + ((u_df_row \<Rightarrow> real) \<times> (u_df_row \<Rightarrow> real))" where
  \<comment> \<open>the columns \<open>(u_free, u_reep)\<close> that the policy reads\<close>
  "forecast_columns policy =
     (if policy \<in> set [''Baseline 1'', ''Baseline 2''] then Inr (raw_u_free, raw_u_reep)
      else if policy = ''Expected'' then Inr (raw_u_free_pred, raw_u_reep_pred_expected)
      else if policy = ''Conservative'' then Inr (raw_u_free_pred, raw_u_reep_pred_conservative)
      else if policy = ''Optimistic'' then Inr (raw_u_free_pred, raw_u_reep_pred_optimistic)
      else Inl ValueError)"

definition u_pred :: "u_df \<Rightarrow> string \<Rightarrow> datetime \<Rightarrow> real \<Rightarrow> error + table" where
  "u_pred df policy start_date initial_u_used =
     (case forecast_columns policy of
        Inl e \<Rightarrow> Inl e
      | Inr (free_col, reep_col) \<Rightarrow>
          (case map_of df start_date of
             None \<Rightarrow> Inl KeyError
           | Some rows \<Rightarrow>
               let forecasts =
                     map (\<lambda>(k, c).
                            (k, \<lparr>u_freep = (if policy = ''Baseline 1'' then free_col c
                                            else min (free_col c) (reep_col c)),
                                u_free = free_col c, u_reep = reep_col c, u_used = 0\<rparr>))
                         rows
               in (case forecasts of
                     [] \<Rightarrow> Inl IndexError
                   | (k0, _) # _ \<Rightarrow> Inr (set_used forecasts k0 initial_u_used))))"

section \<open>The queue: \<open>Queue.active_job\<close> of job.py\<close>

definition active_job :: "store \<Rightarrow> nat option \<Rightarrow> datetime \<Rightarrow> error + nat option" where
  \<comment> \<open>\<open>last_returned\<close> is \<open>self.last_returned_job\<close>; comparing \<open>None\<close> with a datetime is a
      \<open>TypeError\<close>\<close>
  "active_job objs last_returned t =
     (case last_returned of
        None \<Rightarrow> Inr None
      | Some a \<Rightarrow>
          if finished (objs a) then
            (case last_processed (objs a) of
               None \<Rightarrow> Inl TypeError
             | Some lp \<Rightarrow> if lp < round_down_dt t then Inr None else Inr (Some a))
          else Inr (Some a))"

section \<open>Admission control: processes/admission_control.py\<close>

definition admission_queue ::
  "store \<Rightarrow> nat \<Rightarrow> nat list \<Rightarrow> nat option \<Rightarrow> datetime \<Rightarrow> real \<Rightarrow> error + (nat list \<times> datetime \<times> real)" where
  \<comment> \<open>lines 72 to 81: the candidate-inclusive queue \<open>queued_jobs\<close>, \<open>initial_time\<close> and
      \<open>initial_u_used\<close>; rounding down a missing \<open>last_processed\<close> (line 87) is an \<open>AttributeError\<close>\<close>
  "admission_queue objs new_job queued_jobs active t initial_u_used =
     (let queued_jobs = sort_key (\<lambda>a. deadline (objs a)) (queued_jobs @ [new_job])
      in case active of
           None \<Rightarrow> Inr (queued_jobs, t, 0)
         | Some a \<Rightarrow>
             (case last_processed (objs a) of
                None \<Rightarrow> Inl AttributeError
              | Some lp \<Rightarrow> Inr (a # queued_jobs, lp, initial_u_used)))"

fun check_deadlines :: "store \<Rightarrow> nat list \<Rightarrow> error + bool" where
  \<comment> \<open>lines 113 to 125: the loop over the jobs after the run\<close>
  "check_deadlines objs [] = Inr True"
| "check_deadlines objs (a # queued_jobs) =
     (if \<not> finished (objs a) then Inr False
      else case finished_before_deadline (objs a) of
             Inl e \<Rightarrow> Inl e
           | Inr on_time \<Rightarrow> if \<not> on_time then Inr False else check_deadlines objs queued_jobs)"

text \<open>
  \<open>fake_env.run(until=horizon)\<close> refuses a horizon that is not after the clock, and
  schedules the event that stops the run at the double nearest to the clock plus
  \<open>horizon - clock\<close>. The process is started only if the clock is before that time.
\<close>

definition simulate :: "store \<Rightarrow> nat list \<Rightarrow> datetime \<Rightarrow> table \<Rightarrow> (error + bool) \<times> store" where
  \<comment> \<open>lines 102 to 125: the run of the fake environment for one day at most, and the check\<close>
  "simulate objs queued_jobs initial_time forecasts =
     (let clock = datetime_to_simtime initial_time;
          horizon = datetime_to_simtime (round_down_dt initial_time + days 1)
      in if horizon \<le> clock then (Inl ValueError, objs)
         else
           let until = fl (clock + fl (horizon - clock))
           in if until \<le> clock then (check_deadlines objs queued_jobs, objs)
              else
                case execution_process_simulated until queued_jobs clock
                       \<lparr>now = initial_time, jobs = objs, resource_manager = forecasts\<rparr> of
                  (Inl e, _, s') \<Rightarrow> (Inl e, jobs s')
                | (Inr _, _, s') \<Rightarrow> (check_deadlines (jobs s') queued_jobs, jobs s'))"

definition admission_control ::
  "store \<Rightarrow> nat \<Rightarrow> nat list \<Rightarrow> nat option \<Rightarrow> datetime \<Rightarrow> real \<Rightarrow> string \<Rightarrow> u_df \<Rightarrow> (error + bool) \<times> store" where
  \<comment> \<open>\<open>_admission_control\<close>: the decision, and the store as the call leaves it\<close>
  "admission_control objs new_job queued_jobs active t initial_u_used policy df =
     (case admission_queue objs new_job queued_jobs active t initial_u_used of
        Inl e \<Rightarrow> (Inl e, objs)
      | Inr (queued_jobs, initial_time, initial_u_used) \<Rightarrow>
          (case u_pred df policy (round_down_dt initial_time) initial_u_used of
             Inl e \<Rightarrow> (Inl e, objs)
           | Inr forecasts \<Rightarrow>
               let remaining_queue_size = float_sum (map (\<lambda>a. size_remaining (objs a)) queued_jobs);
                   (freep, _) = u_in_daterange forecasts initial_time
                                  (deadline (objs (last queued_jobs)));
                   freep = fl (freep - initial_u_used)
               in if remaining_queue_size > freep then (Inr False, objs)
                  else if deadline (objs (hd queued_jobs)) = deadline (objs (last queued_jobs))
                    then (Inr True, objs)
                  else simulate objs queued_jobs initial_time forecasts))"

text \<open>
  The real state: the job objects, the next unused address, the items of the real queue,
  its last returned job and the table of the real resource manager. A deep copy of a job
  is a new object at an unused address; a job is put into the queue once, so the copy of
  the items makes one new object for each of them.
\<close>

record world =
  objects :: store
  fresh :: nat
  items :: "nat list"
  last_returned_job :: "nat option"
  u_real :: table

definition deepcopy_job :: "world \<Rightarrow> nat \<Rightarrow> world \<times> nat" where
  "deepcopy_job w a =
     (w\<lparr>objects := (objects w)(fresh w := objects w a), fresh := Suc (fresh w)\<rparr>, fresh w)"

fun deepcopy_jobs :: "world \<Rightarrow> nat list \<Rightarrow> world \<times> nat list" where
  "deepcopy_jobs w [] = (w, [])"
| "deepcopy_jobs w (a # as) =
     (let (w1, a') = deepcopy_job w a;
          (w2, as') = deepcopy_jobs w1 as
      in (w2, a' # as'))"

definition deepcopy_option :: "world \<Rightarrow> nat option \<Rightarrow> world \<times> nat option" where
  "deepcopy_option w a =
     (case a of
        None \<Rightarrow> (w, None)
      | Some a \<Rightarrow> (let (w1, a') = deepcopy_job w a in (w1, Some a')))"

definition admission_decision :: "world \<Rightarrow> nat \<Rightarrow> datetime \<Rightarrow> string \<Rightarrow> u_df \<Rightarrow> (error + bool) \<times> world" where
  \<comment> \<open>lines 43 to 51 of \<open>admission_control_process\<close>: the value that is then stored in
      \<open>job.accepted\<close>, and the world as computing it leaves it\<close>
  "admission_decision w job t policy df =
     (if policy = ''Naive'' then
        (case u_now (u_real w) t of
           Inl e \<Rightarrow> (Inl e, w)
         | Inr (freep, _) \<Rightarrow> (Inr (length (items w) = 0 \<and> 0 < freep), w))
      else
        let (w1, new_job) = deepcopy_job w job;
            (w2, queued_jobs) = deepcopy_jobs w1 (items w1)
        in case active_job (objects w2) (last_returned_job w2) t of
             Inl e \<Rightarrow> (Inl e, w2)
           | Inr active \<Rightarrow>
               let (w3, active) = deepcopy_option w2 active
               in case u_used_at (u_real w3) t of
                    Inl e \<Rightarrow> (Inl e, w3)
                  | Inr initial_u_used \<Rightarrow>
                      let (r, objs') = admission_control (objects w3) new_job queued_jobs active
                                         t initial_u_used policy df
                      in (r, w3\<lparr>objects := objs'\<rparr>))"


section \<open>What a run can change\<close>

lemma allocate_frame:
  "allocate c simulated a s = (r, s') \<Longrightarrow> b \<noteq> a \<Longrightarrow> jobs s' b = jobs s b"
  by (auto simp: allocate_def Let_def split: if_splits sum.splits prod.splits)

lemma loop_body_frame:
  "loop_body simulated a s = (r, s') \<Longrightarrow> b \<noteq> a \<Longrightarrow> jobs s' b = jobs s b"
  by (auto simp: loop_body_def split: sum.splits dest: allocate_frame)

lemma job_loop_invariant:
  assumes "job_loop until simulated a clock s = (r, clock', s')" and "P s"
    and body: "\<And>s t x s1. P s \<Longrightarrow> \<not> finished (jobs s a) \<Longrightarrow>
                 loop_body simulated a (s\<lparr>now := t\<rparr>) = (x, s1) \<Longrightarrow> P s1"
  shows "P s'"
  using assms
proof (induction until simulated a clock s rule: job_loop.induct)
  case (1 until simulated a clock s)
  note body = "1.prems"(3)
  show ?case
  proof (cases "finished (jobs s a)")
    case True
    with "1.prems" show ?thesis by (simp add: job_loop.simps)
  next
    case False
    show ?thesis
    proof (cases "simtime_to_datetime clock")
      case (Inl e)
      with "1.prems"(1,2) False show ?thesis by (simp add: job_loop.simps)
    next
      case t: (Inr t)
      obtain x s1 where lb: "loop_body simulated a (s\<lparr>now := t\<rparr>) = (x, s1)"
        by (cases "loop_body simulated a (s\<lparr>now := t\<rparr>)")
      from "1.prems"(2) False lb have P1: "P s1" by (rule body)
      show ?thesis
      proof (cases x)
        case (Inl e)
        with "1.prems"(1) False t lb have "s' = s1" by (simp add: job_loop.simps)
        with P1 show ?thesis by simp
      next
        case (Inr d)
        define c1 where "c1 = fl (clock + timedelta_to_simtimedelta d)"
        show ?thesis
        proof (cases "until \<le> c1")
          case True
          with "1.prems"(1) False t lb Inr have "s' = s1"
            by (simp add: job_loop.simps c1_def Let_def)
          with P1 show ?thesis by simp
        next
          case h: False
          with "1.prems"(1) False t lb Inr
          have run: "job_loop until simulated a c1 s1 = (r, clock', s')"
            by (simp add: job_loop.simps c1_def Let_def)
          show ?thesis
            by (rule "1.IH" [OF False t lb [symmetric] Inr c1_def h run P1]) (erule (2) body)
        qed
      qed
    qed
  qed
qed

lemma job_loop_frame:
  assumes "job_loop until simulated a clock s = (r, clock', s')" and "b \<noteq> a"
  shows "jobs s' b = jobs s b"
proof -
  have "jobs s' b = jobs s b"
    by (rule job_loop_invariant [OF assms(1), where P = "\<lambda>x. jobs x b = jobs s b"])
      (simp_all add: loop_body_frame [OF _ assms(2)])
  then show ?thesis .
qed


lemma process_invariant:
  assumes "execution_process_simulated until q clock s = (r, clock', s')" and "P clock s"
    and loop: "\<And>a c s x c1 s1. a \<in> set q \<Longrightarrow> P c s \<Longrightarrow>
                 job_loop until True a c s = (x, c1, s1) \<Longrightarrow> P c1 s1"
  shows "P clock' s'"
  using assms
proof (induction q arbitrary: clock s)
  case Nil
  then show ?case by simp
next
  case (Cons a q)
  obtain x c1 s1 where jl: "job_loop until True a clock s = (x, c1, s1)"
    by (cases "job_loop until True a clock s")
  have P1: "P c1 s1" by (rule Cons.prems(3) [OF _ Cons.prems(2) jl]) simp
  show ?case
  proof (cases "execution_process_simulated until (a # q) clock s = (r, c1, s1)")
    case True
    with Cons.prems(1) P1 show ?thesis by simp
  next
    case False
    with Cons.prems(1) jl have run: "execution_process_simulated until q c1 s1 = (r, clock', s')"
      by (auto split: sum.splits loop_exit.splits if_splits)
    show ?thesis
      by (rule Cons.IH [OF run P1]) (rule Cons.prems(3), simp_all)
  qed
qed

lemma process_frame:
  assumes "execution_process_simulated until q clock s = (r, clock', s')" and "b \<notin> set q"
  shows "jobs s' b = jobs s b"
proof -
  have step: "jobs s1 b = jobs s b"
    if "a \<in> set q" "jobs s0 b = jobs s b" "job_loop until True a c s0 = (x, c1, s1)"
    for a c s0 x c1 s1
  proof -
    from that(1) assms(2) have "b \<noteq> a" by auto
    with that(3) have "jobs s1 b = jobs s0 b" by (rule job_loop_frame)
    with that(2) show ?thesis by simp
  qed
  show ?thesis
    by (rule process_invariant [OF assms(1), where P = "\<lambda>c x. jobs x b = jobs s b"])
      (simp, erule (2) step)
qed



section \<open>The admission decision\<close>



lemma admission_queue_set:
  assumes "admission_queue objs new_job queued_jobs active t used0 = Inr (q, initial_time, used)"
  shows "q \<noteq> [] \<and> set q = set queued_jobs \<union> {new_job} \<union> set_option active"
proof (cases active)
  case None
  with assms have "q = sort_key (\<lambda>a. deadline (objs a)) (queued_jobs @ [new_job])"
    by (simp add: admission_queue_def)
  moreover have "sort_key (\<lambda>a. deadline (objs a)) (queued_jobs @ [new_job]) \<noteq> []"
    by (metis length_sort snoc_eq_iff_butlast list.size(3) length_0_conv)
  ultimately show ?thesis using None by auto
next
  case (Some a)
  with assms have "q = a # sort_key (\<lambda>a. deadline (objs a)) (queued_jobs @ [new_job])"
    by (auto simp: admission_queue_def split: option.splits)
  with Some show ?thesis by auto
qed

lemma admission_control_unfold:
  assumes "admission_queue objs new_job queued_jobs active t used0 = Inr (q, initial_time, used)"
    and "u_pred df policy (round_down_dt initial_time) used = Inr forecasts"
  shows "admission_control objs new_job queued_jobs active t used0 policy df =
     (if float_sum (map (\<lambda>a. size_remaining (objs a)) q)
           > fl (fst (u_in_daterange forecasts initial_time (deadline (objs (last q)))) - used)
      then (Inr False, objs)
      else if deadline (objs (hd q)) = deadline (objs (last q)) then (Inr True, objs)
      else simulate objs q initial_time forecasts)"
  using assms by (simp add: admission_control_def Let_def split_def)




section \<open>Deep copies and the real state\<close>

lemma simulate_frame:
  assumes "simulate objs q initial_time forecasts = (r, objs')" and "b \<notin> set q"
  shows "objs' b = objs b"
proof -
  define clock where "clock = datetime_to_simtime initial_time"
  define until where
    "until = fl (clock + fl (datetime_to_simtime (round_down_dt initial_time + days 1) - clock))"
  let ?s = "\<lparr>now = initial_time, jobs = objs, resource_manager = forecasts\<rparr>"
  obtain x c' s' where run: "execution_process_simulated until q clock ?s = (x, c', s')"
    by (cases "execution_process_simulated until q clock ?s")
  with assms(1) have "objs' = objs \<or> objs' = jobs s'"
    by (auto simp: simulate_def Let_def clock_def [symmetric] until_def [symmetric]
        split: if_splits sum.splits)
  moreover from run assms(2) have "jobs s' b = jobs ?s b" by (rule process_frame)
  ultimately show ?thesis by auto
qed

lemma admission_control_frame:
  assumes "admission_control objs new_job queued_jobs active t used0 policy df = (r, objs')"
    and "b \<noteq> new_job" and "b \<notin> set queued_jobs" and "b \<notin> set_option active"
  shows "objs' b = objs b"
proof (cases "admission_queue objs new_job queued_jobs active t used0")
  case (Inl e)
  with assms(1) show ?thesis by (simp add: admission_control_def)
next
  case (Inr x)
  obtain q initial_time used where x: "x = (q, initial_time, used)" by (cases x)
  with Inr have q: "admission_queue objs new_job queued_jobs active t used0 = Inr (q, initial_time, used)"
    by simp
  then have "set q = set queued_jobs \<union> {new_job} \<union> set_option active"
    by (simp add: admission_queue_set)
  with assms(2-4) have nb: "b \<notin> set q" by simp
  show ?thesis
  proof (cases "u_pred df policy (round_down_dt initial_time) used")
    case (Inl e)
    with assms(1) q show ?thesis by (simp add: admission_control_def)
  next
    case (Inr forecasts)
    from assms(1) have "objs' = objs \<or> simulate objs q initial_time forecasts = (r, objs')"
      unfolding admission_control_unfold [OF q Inr] by (auto split: if_splits)
    then show ?thesis using simulate_frame [OF _ nb] by auto
  qed
qed

lemma deepcopy_job_effect:
  assumes "deepcopy_job w a = (w', a')"
  shows "a' = fresh w \<and> fresh w' = Suc (fresh w) \<and> items w' = items w \<and>
         last_returned_job w' = last_returned_job w \<and> u_real w' = u_real w \<and>
         (\<forall>b. b < fresh w \<longrightarrow> objects w' b = objects w b)"
  using assms by (auto simp: deepcopy_job_def)

lemma deepcopy_jobs_effect:
  "deepcopy_jobs w as = (w', as') \<Longrightarrow>
   fresh w \<le> fresh w' \<and> items w' = items w \<and>
   last_returned_job w' = last_returned_job w \<and> u_real w' = u_real w \<and>
   (\<forall>b. b < fresh w \<longrightarrow> objects w' b = objects w b) \<and>
   (\<forall>a'\<in>set as'. fresh w \<le> a')"
proof (induction as arbitrary: w w' as')
  case Nil
  then show ?case by simp
next
  case (Cons a as)
  obtain w1 a1 where c1: "deepcopy_job w a = (w1, a1)" by (cases "deepcopy_job w a")
  obtain w2 as2 where c2: "deepcopy_jobs w1 as = (w2, as2)" by (cases "deepcopy_jobs w1 as")
  from Cons.prems c1 c2 have eq: "w' = w2" "as' = a1 # as2" by simp_all
  note e1 = deepcopy_job_effect [OF c1] and e2 = Cons.IH [OF c2]
  from e1 e2 show ?case unfolding eq by auto
qed

lemma deepcopy_option_effect:
  assumes "deepcopy_option w a = (w', a')"
  shows "fresh w \<le> fresh w' \<and> items w' = items w \<and>
         last_returned_job w' = last_returned_job w \<and> u_real w' = u_real w \<and>
         (\<forall>b. b < fresh w \<longrightarrow> objects w' b = objects w b) \<and>
         (\<forall>x\<in>set_option a'. fresh w \<le> x)"
proof (cases a)
  case None
  with assms show ?thesis by (simp add: deepcopy_option_def)
next
  case (Some x)
  obtain w1 a1 where c1: "deepcopy_job w x = (w1, a1)" by (cases "deepcopy_job w x")
  with assms Some have "w' = w1" "a' = Some a1" by (simp_all add: deepcopy_option_def)
  with deepcopy_job_effect [OF c1] show ?thesis by auto
qed


text \<open>
  C1. Under every policy other than \<open>Naive\<close>, computing the admission decision leaves the
  real state as it was, whatever the outcome (a decision or an exception): the items of
  the real queue and its last returned job, the table of the real resource manager, and
  every job object that existed before the call (the arriving job and the queued jobs
  among them) are unchanged. The decision runs on copies at new addresses only.
\<close>

theorem admission_decision_frame:
  "policy \<noteq> ''Naive'' \<and> admission_decision w job t policy df = (r, w') \<longrightarrow>
   items w' = items w \<and> last_returned_job w' = last_returned_job w \<and> u_real w' = u_real w \<and>
   (\<forall>a. a < fresh w \<longrightarrow> objects w' a = objects w a)"
proof (intro impI, elim conjE)
  assume pol: "policy \<noteq> ''Naive''" and dec: "admission_decision w job t policy df = (r, w')"
  obtain w1 new_job where c1: "deepcopy_job w job = (w1, new_job)"
    by (cases "deepcopy_job w job")
  obtain w2 queued_jobs where c2: "deepcopy_jobs w1 (items w1) = (w2, queued_jobs)"
    by (cases "deepcopy_jobs w1 (items w1)")
  note e1 = deepcopy_job_effect [OF c1] and e2 = deepcopy_jobs_effect [OF c2]
  from e1 e2 have k2: "items w2 = items w" "last_returned_job w2 = last_returned_job w"
      "u_real w2 = u_real w" "\<forall>a. a < fresh w \<longrightarrow> objects w2 a = objects w a"
      "fresh w < fresh w2"
    by auto
  show "items w' = items w \<and> last_returned_job w' = last_returned_job w \<and> u_real w' = u_real w \<and>
   (\<forall>a. a < fresh w \<longrightarrow> objects w' a = objects w a)"
  proof (cases "active_job (objects w2) (last_returned_job w2) t")
    case (Inl e)
    with dec pol c1 c2 have "w' = w2" by (simp add: admission_decision_def)
    with k2 show ?thesis by simp
  next
    case (Inr act)
    obtain w3 active where c3: "deepcopy_option w2 act = (w3, active)"
      by (cases "deepcopy_option w2 act")
    note e3 = deepcopy_option_effect [OF c3]
    from e3 k2 have k3: "items w3 = items w" "last_returned_job w3 = last_returned_job w"
        "u_real w3 = u_real w" "\<forall>a. a < fresh w \<longrightarrow> objects w3 a = objects w a"
      by auto
    show ?thesis
    proof (cases "u_used_at (u_real w3) t")
      case (Inl e)
      with dec pol c1 c2 c3 Inr have "w' = w3" by (simp add: admission_decision_def)
      with k3 show ?thesis by simp
    next
      case used: (Inr initial_u_used)
      obtain x objs' where ac: "admission_control (objects w3) new_job queued_jobs active
                                  t initial_u_used policy df = (x, objs')"
        by (cases "admission_control (objects w3) new_job queued_jobs active t initial_u_used policy df")
      with dec pol c1 c2 c3 Inr used have w': "w' = w3\<lparr>objects := objs'\<rparr>"
        by (simp add: admission_decision_def)
      have "objs' a = objects w a" if a: "a < fresh w" for a
      proof -
        from a e1 have "a \<noteq> new_job" by simp
        moreover from a e1 e2 have "a \<notin> set queued_jobs" by fastforce
        moreover from a e3 k2(5) have "a \<notin> set_option active" by fastforce
        ultimately have "objs' a = objects w3 a"
          using ac by (intro admission_control_frame)
        with a k3 show ?thesis by simp
      qed
      with w' k3 show ?thesis by simp
    qed
  qed
qed


section \<open>A concrete arrival\<close>

text \<open>
  Forecasts requested at the start date for three steps, 100 mch free and 60 mch renewable
  each; job B waits in the queue; a candidate arrives at the start date.
\<close>

definition df0 :: u_df where
  "df0 = [(0, [(600000000, \<lparr>raw_u_free = 100, raw_u_free_pred = 100, raw_u_reep = 60,
                    raw_u_reep_pred_expected = 60, raw_u_reep_pred_conservative = 40,
                    raw_u_reep_pred_optimistic = 80\<rparr>),
               (1200000000, \<lparr>raw_u_free = 100, raw_u_free_pred = 100, raw_u_reep = 60,
                    raw_u_reep_pred_expected = 60, raw_u_reep_pred_conservative = 40,
                    raw_u_reep_pred_optimistic = 80\<rparr>),
               (1800000000, \<lparr>raw_u_free = 100, raw_u_free_pred = 100, raw_u_reep = 60,
                    raw_u_reep_pred_expected = 60, raw_u_reep_pred_conservative = 40,
                    raw_u_reep_pred_optimistic = 80\<rparr>)])]"


definition jobA :: job where
  "jobA = \<lparr>id_job = 10, arrive_time = 0, size_job = 50, size_remaining = 50,
            deadline = 1200000000, accepted = None, last_processed = None\<rparr>"

definition jobB :: job where
  "jobB = \<lparr>id_job = 11, arrive_time = 0, size_job = 30, size_remaining = 30,
            deadline = 600000000, accepted = Some True, last_processed = None\<rparr>"
















section \<open>A speculative run\<close>

lemma until0:
  "datetime_to_simtime 0 = 0"
  "fl (datetime_to_simtime 0
       + fl (datetime_to_simtime (round_down_dt 0 + days 1) - datetime_to_simtime 0)) = 144"
  by code_simp+


text \<open>
  A run that reaches the horizon. The clock stands at 143 steps (23:50:00), the run stops
  at 144 steps, and the step that ends at 24:00:00 has 60 mch: jobs of 2, 14 and 49 mch
  run for 20 s, 140 s and 440 s. The three delays add up to ten minutes, but the clock,
  a sum of doubles, stands at 143.99999999999997: the process is resumed, reads 24:00:00
  off the clock, and finishes the third job in the next step, at 24:00:50.
\<close>

definition table2 :: table where
  "table2 = [(86400000000, \<lparr>u_freep = 60, u_free = 100, u_reep = 60, u_used = 0\<rparr>),
             (87000000000, \<lparr>u_freep = 60, u_free = 100, u_reep = 60, u_used = 0\<rparr>)]"

definition job_of :: "real \<Rightarrow> job" where
  "job_of sz = \<lparr>id_job = 0, arrive_time = 0, size_job = sz, size_remaining = sz,
                 deadline = 87000000000, accepted = Some True, last_processed = None\<rparr>"

definition state0 :: exec_state where
  "state0 = \<lparr>now = 85800000000, jobs = (\<lambda>_. job_of 2)(2 := job_of 14, 3 := job_of 49),
             resource_manager = table2\<rparr>"

lemma run_to_the_horizon:
  "(case execution_process_simulated 144 [0, 2, 3] 143 state0 of
      (r, clock, s) \<Rightarrow> (r, clock, map (jobs s) [0, 2, 3])) =
   (Inr (), 5066549580791807 / 35184372088832,
    [(job_of 2)\<lparr>size_remaining := 0, last_processed := Some 85820000000\<rparr>,
     (job_of 14)\<lparr>size_remaining := 0, last_processed := Some 85960000000\<rparr>,
     (job_of 49)\<lparr>size_remaining := 0, last_processed := Some 86450000000\<rparr>])"
  "(5066549580791807 / 35184372088832 :: real) < 144"
  "simtime_to_datetime (5066549580791807 / 35184372088832) = Inr 86400000000"
  by code_simp+


text \<open>The real state of the concrete arrival: job B queued at address 0, the candidate A at address 1.\<close>

definition world0 :: world where
  "world0 = \<lparr>objects = (\<lambda>_. jobB)(1 := jobA), fresh = 2, items = [0],
              last_returned_job = None, u_real = table0\<rparr>"

theorem admission_decision_frame_witness:
  "fst (admission_decision world0 1 0 ''Baseline 2'' df0) = Inr True \<and>
   size_remaining (objects (snd (admission_decision world0 1 0 ''Baseline 2'' df0)) 2) = 0 \<and>
   size_remaining (objects (snd (admission_decision world0 1 0 ''Baseline 2'' df0)) 3) = 0 \<and>
   objects (snd (admission_decision world0 1 0 ''Baseline 2'' df0)) 0 = jobB \<and>
   objects (snd (admission_decision world0 1 0 ''Baseline 2'' df0)) 1 = jobA \<and>
   items (snd (admission_decision world0 1 0 ''Baseline 2'' df0)) = [0] \<and>
   last_returned_job (snd (admission_decision world0 1 0 ''Baseline 2'' df0)) = None \<and>
   u_real (snd (admission_decision world0 1 0 ''Baseline 2'' df0)) = table0"
proof -
  let ?d = "admission_decision world0 1 0 ''Baseline 2'' df0"
  have accepted: "fst ?d = Inr True"
    by code_simp
  have clones: "size_remaining (objects (snd ?d) 2) = 0" "size_remaining (objects (snd ?d) 3) = 0"
    by code_simp+
  have "items (snd ?d) = items world0 \<and> last_returned_job (snd ?d) = last_returned_job world0 \<and>
      u_real (snd ?d) = u_real world0 \<and>
      (\<forall>a. a < fresh world0 \<longrightarrow> objects (snd ?d) a = objects world0 a)"
    using admission_decision_frame [of "''Baseline 2''" world0 1 0 df0 "fst ?d" "snd ?d"]
    by simp
  then have "items (snd ?d) = [0]" "last_returned_job (snd ?d) = None" "u_real (snd ?d) = table0"
      "objects (snd ?d) 0 = jobB" "objects (snd ?d) 1 = jobA"
    by (simp_all add: world0_def)
  with accepted clones show ?thesis by simp
qed

end
